theory Spec2Isabelle
  imports Main "HOL-Library.Word"
begin

section \<open>The offline-first todo list of src/app/page.tsx\<close>

text \<open>
  The component \<open>TodoApp\<close> keeps four pieces of React state (\<open>todos\<close>, \<open>newTodo\<close>,
  \<open>isOnline\<close>, \<open>isSyncing\<close>) and mirrors the list into the IndexedDB object store
  \<open>todos\<close> of the database \<open>TodoDB\<close>. Every handler of the component is embedded as a
  function from the world before the handler runs to the world after it. The world holds
  the React state, the object store, whether \<open>indexedDB.open\<close> succeeds, and the
  reconciliation passes whose one-second delay has not expired yet.

  A handler is one step: what it awaits from the store is not interleaved with another
  handler. The one exception is the delay inside \<open>syncTodos\<close>, which lasts a second: the
  call up to the delay and the rest after it are two steps, and other handlers can run in
  between.
\<close>

subsection \<open>Strings and numbers\<close>

text \<open>
  A JavaScript string is a sequence of UTF-16 code units. \<open>Date.now()\<close> is an integral
  number of milliseconds; \<open>toString\<close> prints such a number in decimal (the exponent notation
  starts at \<open>1e21\<close>, far above any time value).
\<close>

type_synonym jsstring = "16 word list"

fun digits :: "nat \<Rightarrow> jsstring" where
  "digits n = (if n < 10 then [of_nat (48 + n)] else digits (n div 10) @ [of_nat (48 + n mod 10)])"

declare digits.simps [simp del]

definition toString :: "int \<Rightarrow> jsstring" where
  "toString i = (if i < 0 then 45 # digits (nat (- i)) else digits (nat i))"

text \<open>
  \<open>String.prototype.trim\<close> removes the code units of WhiteSpace and LineTerminator from both
  ends: TAB, LF, VT, FF, CR, SPACE, NBSP, U+1680, U+2000 to U+200A, U+2028, U+2029, U+202F,
  U+205F, U+3000 and U+FEFF.
\<close>

definition isWhiteSpace :: "16 word \<Rightarrow> bool" where
  "isWhiteSpace c = (c \<in> set [0x0009, 0x000A, 0x000B, 0x000C, 0x000D, 0x0020, 0x00A0, 0x1680,
     0x2000, 0x2001, 0x2002, 0x2003, 0x2004, 0x2005, 0x2006, 0x2007, 0x2008, 0x2009, 0x200A,
     0x2028, 0x2029, 0x202F, 0x205F, 0x3000, 0xFEFF])"

definition trimStart :: "jsstring \<Rightarrow> jsstring" where
  "trimStart s = dropWhile isWhiteSpace s"

definition trimEnd :: "jsstring \<Rightarrow> jsstring" where
  "trimEnd s = rev (dropWhile isWhiteSpace (rev s))"

definition trim :: "jsstring \<Rightarrow> jsstring" where
  "trim s = trimEnd (trimStart s)"

subsection \<open>The item\<close>

text \<open>
  The interface \<open>Todo\<close>. Its fields \<open>id\<close> and \<open>text\<close> carry the suffix \<open>_todo\<close> here,
  because both names are taken in Isabelle.
\<close>

record todo =
  id_todo :: jsstring
  text_todo :: jsstring
  completed :: bool
  createdAt :: int
  synced :: bool

subsection \<open>The object store\<close>

text \<open>
  Modelled from the spec: the IndexedDB object store \<open>todos\<close>, created by \<open>initDB\<close> with
  \<open>keyPath: 'id'\<close>, is platform code that src/ does not contain. Section 4.1 of the spec gives
  its contract: \<open>put(item)\<close> upserts by id, \<open>delete(id)\<close> removes by id and \<open>listAll()\<close>
  returns every stored item in unspecified order. The store is the list of its records; the
  order of the list carries no meaning.
\<close>

fun put :: "todo \<Rightarrow> todo list \<Rightarrow> todo list" where
  "put t [] = [t]"
| "put t (x # xs) = (if id_todo x = id_todo t then t # xs else x # put t xs)"

definition delete_key :: "jsstring \<Rightarrow> todo list \<Rightarrow> todo list" where
  "delete_key k xs = filter (\<lambda>x. id_todo x \<noteq> k) xs"

definition getAll :: "todo list \<Rightarrow> todo list" where
  "getAll xs = xs"

definition get :: "jsstring \<Rightarrow> todo list \<Rightarrow> todo option" where
  "get k xs = find (\<lambda>x. id_todo x = k) xs"

subsection \<open>The world\<close>

text \<open>
  \<open>objectStore\<close> is the content of the store and \<open>dbOpens\<close> tells whether the promise of
  \<open>getDB\<close> resolves (\<open>request.onsuccess\<close>) or rejects (\<open>request.onerror\<close>); it belongs to
  the environment, and the event \<open>DbOpens\<close> below changes it. \<open>passes\<close> holds,
  oldest first, the reconciliation passes that wait in \<open>setTimeout\<close>, each with the \<open>todos\<close>
  its closure captured. \<open>syncCalls\<close> counts the calls of \<open>syncTodos\<close>.
\<close>

record world =
  todos :: "todo list"
  newTodo :: jsstring
  isOnline :: bool
  isSyncing :: bool
  objectStore :: "todo list"
  dbOpens :: bool
  passes :: "todo list list"
  syncCalls :: nat

subsection \<open>Persistence\<close>

text \<open>
  Each of the three functions awaits \<open>getDB\<close> inside \<open>try\<close>; when the database does not
  open, the \<open>catch\<close> logs the error and the function returns without touching anything.
\<close>

definition loadTodosFromDB :: "world \<Rightarrow> world" where
  "loadTodosFromDB w = (if dbOpens w then w\<lparr>todos := getAll (objectStore w)\<rparr> else w)"

definition saveTodoDB :: "todo \<Rightarrow> world \<Rightarrow> world" where
  "saveTodoDB t w = (if dbOpens w then w\<lparr>objectStore := put t (objectStore w)\<rparr> else w)"

definition deleteTodoDB :: "jsstring \<Rightarrow> world \<Rightarrow> world" where
  "deleteTodoDB k w = (if dbOpens w then w\<lparr>objectStore := delete_key k (objectStore w)\<rparr> else w)"

subsection \<open>The reconciler\<close>

text \<open>
  \<open>syncTodos\<close> up to its \<open>await\<close> of the timer: it sets \<open>isSyncing\<close> and suspends with the
  \<open>todos\<close> of the render that called it.
\<close>

definition syncTodos :: "world \<Rightarrow> world" where
  "syncTodos w = w\<lparr>isSyncing := True, passes := passes w @ [todos w],
     syncCalls := Suc (syncCalls w)\<rparr>"

text \<open>The loop \<open>for (const todo of syncedTodos) await saveTodoDB(todo)\<close>.\<close>

fun saveAll :: "todo list \<Rightarrow> world \<Rightarrow> world" where
  "saveAll [] w = w"
| "saveAll (t # ts) w = saveAll ts (saveTodoDB t w)"

text \<open>
  The rest of \<open>syncTodos\<close>, run when the timer of the oldest waiting pass fires: the
  captured items are marked synced, saved one by one and installed as the new list.
\<close>

definition syncTodos_resume :: "world \<Rightarrow> world" where
  "syncTodos_resume w =
     (case passes w of
        [] \<Rightarrow> w
      | captured # rest \<Rightarrow>
          (let syncedTodos = map (\<lambda>t. t\<lparr>synced := True\<rparr>) captured
           in (saveAll syncedTodos w)\<lparr>todos := syncedTodos, isSyncing := False, passes := rest\<rparr>))"

subsection \<open>The item list controller\<close>

text \<open>
  \<open>addTodo\<close> reads the clock twice, once for the id and once for \<open>createdAt\<close>; the two
  readings are the parameters \<open>now1\<close> and \<open>now2\<close>.
\<close>

definition addTodo :: "int \<Rightarrow> int \<Rightarrow> world \<Rightarrow> world" where
  "addTodo now1 now2 w =
     (if trim (newTodo w) = [] then w
      else
        (let todo = \<lparr>id_todo = toString now1, text_todo = trim (newTodo w), completed = False,
                     createdAt = now2, synced = isOnline w\<rparr>
         in (saveTodoDB todo w)\<lparr>todos := todos w @ [todo], newTodo := []\<rparr>))"

definition toggleTodo :: "jsstring \<Rightarrow> world \<Rightarrow> world" where
  "toggleTodo k w =
     (let updatedTodos =
            map (\<lambda>t. if id_todo t = k then t\<lparr>completed := \<not> completed t, synced := isOnline w\<rparr>
                      else t) (todos w);
          w1 = w\<lparr>todos := updatedTodos\<rparr>
      in (case find (\<lambda>t. id_todo t = k) updatedTodos of
            None \<Rightarrow> w1
          | Some t \<Rightarrow> saveTodoDB t w1))"

definition deleteTodo :: "jsstring \<Rightarrow> world \<Rightarrow> world" where
  "deleteTodo k w = (deleteTodoDB k w)\<lparr>todos := filter (\<lambda>t. id_todo t \<noteq> k) (todos w)\<rparr>"

subsection \<open>The view\<close>

definition unsyncedCount :: "world \<Rightarrow> nat" where
  "unsyncedCount w = length (filter (\<lambda>t. \<not> synced t) (todos w))"

text \<open>
  The banner \<open>{unsyncedCount > 0 && !isOnline && (...)}\<close>: \<open>None\<close> when it is not rendered,
  otherwise the number it displays.
\<close>

definition pendingBanner :: "world \<Rightarrow> nat option" where
  "pendingBanner w = (if unsyncedCount w > 0 \<and> \<not> isOnline w then Some (unsyncedCount w) else None)"

subsection \<open>The connectivity monitor and the effects\<close>

text \<open>
  \<open>setIsOnline\<close> followed by the effect that depends on \<open>[isOnline]\<close>: React runs the effect
  only when the value has changed, and the effect calls \<open>syncTodos\<close> when the new value is
  true.
\<close>

definition setIsOnline :: "bool \<Rightarrow> world \<Rightarrow> world" where
  "setIsOnline v w =
     (if isOnline w = v then w
      else (let w1 = w\<lparr>isOnline := v\<rparr> in if v then syncTodos w1 else w1))"

text \<open>
  Mounting the component over a store \<open>st\<close>. The first render has \<open>todos = []\<close> and
  \<open>isOnline = true\<close> (the initial values of \<open>useState\<close>), and both effects run after it
  with these values. The effect on \<open>[isOnline]\<close> therefore calls \<open>syncTodos\<close>, whose closure
  holds the empty list. The other effect calls \<open>setIsOnline(navigator.onLine)\<close>, which takes
  effect at the next render (where the effect on \<open>[isOnline]\<close> runs again only if the value
  has become false, and then calls nothing), and \<open>loadTodosFromDB\<close>, whose result arrives
  from the store a moment later.
\<close>

definition mount :: "bool \<Rightarrow> todo list \<Rightarrow> bool \<Rightarrow> world" where
  "mount onLine st opens =
     loadTodosFromDB (setIsOnline onLine (syncTodos
       \<lparr>todos = [], newTodo = [], isOnline = True, isSyncing = False,
        objectStore = st, dbOpens = opens, passes = [], syncCalls = 0\<rparr>))"

subsection \<open>Events\<close>

text \<open>
  What can happen to a mounted component: the user edits the input field (\<open>onChange\<close>),
  clicks Add or presses Enter (with the two clock readings of \<open>addTodo\<close>), clicks the
  toggle or the delete control of an item; the window reports \<open>online\<close> or \<open>offline\<close>;
  the delay of the oldest waiting pass expires; the store starts or stops opening.
\<close>

datatype event =
    Change jsstring
  | AddClick int int
  | ToggleClick jsstring
  | DeleteClick jsstring
  | WindowOnline
  | WindowOffline
  | TimerFires
  | DbOpens bool

fun step :: "event \<Rightarrow> world \<Rightarrow> world" where
  "step (Change s) w = w\<lparr>newTodo := s\<rparr>"
| "step (AddClick now1 now2) w = addTodo now1 now2 w"
| "step (ToggleClick k) w = toggleTodo k w"
| "step (DeleteClick k) w = deleteTodo k w"
| "step WindowOnline w = setIsOnline True w"
| "step WindowOffline w = setIsOnline False w"
| "step TimerFires w = syncTodos_resume w"
| "step (DbOpens b) w = w\<lparr>dbOpens := b\<rparr>"

fun run :: "world \<Rightarrow> event list \<Rightarrow> world" where
  "run w [] = w"
| "run w (e # es) = run (step e w) es"

subsection \<open>Notions used by the properties\<close>


text \<open>A text is trimmed when it is not empty and neither starts nor ends with white space.\<close>

definition trimmed :: "jsstring \<Rightarrow> bool" where
  "trimmed s = (s \<noteq> [] \<and> \<not> isWhiteSpace (hd s) \<and> \<not> isWhiteSpace (last s))"

text \<open>
  The store keeps at most one record per id, and every text held anywhere (in the list, in
  the store, in a waiting pass) is trimmed.
\<close>

definition uniqueIds :: "world \<Rightarrow> bool" where
  "uniqueIds w = distinct (map id_todo (objectStore w))"

definition textsTrimmed :: "world \<Rightarrow> bool" where
  "textsTrimmed w =
     (list_all (\<lambda>t. trimmed (text_todo t)) (todos w) \<and>
      list_all (\<lambda>t. trimmed (text_todo t)) (objectStore w) \<and>
      list_all (list_all (\<lambda>t. trimmed (text_todo t))) (passes w))"




subsection \<open>Example data\<close>

text \<open>
  The text \<open>Buy milk\<close>; the world one second after a mount over an empty store, in which
  the user has typed that text with a space before and a space after; and the item that
  \<open>addTodo\<close> makes of it when the clock reads 1 and then 2.
\<close>

definition buyMilk :: jsstring where
  "buyMilk = [0x42, 0x75, 0x79, 0x20, 0x6D, 0x69, 0x6C, 0x6B]"

definition typed :: "bool \<Rightarrow> bool \<Rightarrow> world" where
  "typed online opens =
     \<lparr>todos = [], newTodo = 0x20 # buyMilk @ [0x20], isOnline = online, isSyncing = False,
      objectStore = [], dbOpens = opens, passes = [], syncCalls = 1\<rparr>"

definition milk :: "bool \<Rightarrow> todo" where
  "milk s = \<lparr>id_todo = [0x31], text_todo = buyMilk, completed = False, createdAt = 2, synced = s\<rparr>"

section \<open>White space\<close>

lemma dropWhile_Nil_all: "dropWhile P xs = [] \<longleftrightarrow> list_all P xs"
  by (induction xs) auto

lemma trim_eq_Nil_iff: "trim s = [] \<longleftrightarrow> list_all isWhiteSpace s"
proof (cases "dropWhile isWhiteSpace s")
  case Nil
  have "trim s = []"
    by (simp only: trim_def trimEnd_def trimStart_def Nil rev.simps dropWhile.simps)
  moreover have "list_all isWhiteSpace s"
    using Nil by (simp only: dropWhile_Nil_all)
  ultimately show ?thesis by simp
next
  case (Cons a as)
  then have a: "\<not> isWhiteSpace a"
    using hd_dropWhile[of isWhiteSpace s] by simp
  have "\<not> list_all isWhiteSpace (rev (a # as))"
    using a by (simp add: list_all_iff)
  then have "dropWhile isWhiteSpace (rev (a # as)) \<noteq> []"
    by (simp only: dropWhile_Nil_all not_False_eq_True)
  moreover have "\<not> list_all isWhiteSpace s"
    using Cons by (simp flip: dropWhile_Nil_all)
  ultimately show ?thesis
    using Cons by (simp add: trim_def trimEnd_def trimStart_def)
qed

lemma trim_decomp:
  "s = takeWhile isWhiteSpace s @ trim s @ rev (takeWhile isWhiteSpace (rev (trimStart s)))"
proof -
  have "trimStart s = trim s @ rev (takeWhile isWhiteSpace (rev (trimStart s)))"
    unfolding trim_def trimEnd_def
    by (metis rev_append rev_rev_ident takeWhile_dropWhile_id)
  then show ?thesis
    by (metis takeWhile_dropWhile_id trimStart_def)
qed

lemma trim_last: "trim s \<noteq> [] \<Longrightarrow> \<not> isWhiteSpace (last (trim s))"
  unfolding trim_def trimEnd_def
  by (simp add: last_rev hd_dropWhile)

lemma trim_hd: 
  assumes "trim s \<noteq> []" shows "\<not> isWhiteSpace (hd (trim s))"
proof -
  have ne: "trimStart s \<noteq> []"
    using assms by (auto simp: trim_def trimEnd_def)
  have "trimStart s = trim s @ rev (takeWhile isWhiteSpace (rev (trimStart s)))"
    unfolding trim_def trimEnd_def
    by (metis rev_append rev_rev_ident takeWhile_dropWhile_id)
  then have "hd (trimStart s) = hd (trim s)"
    using assms by (metis hd_append2)
  moreover have "\<not> isWhiteSpace (hd (trimStart s))"
    using ne unfolding trimStart_def by (rule hd_dropWhile)
  ultimately show ?thesis by simp
qed

lemma trimmed_trim: "trim s \<noteq> [] \<Longrightarrow> trimmed (trim s)"
  by (simp add: trimmed_def trim_hd trim_last)

lemma list_all_takeWhile: "list_all P (takeWhile P xs)"
  by (induction xs) simp_all

lemma ws: "isWhiteSpace 0x20" "isWhiteSpace 0x3000" "\<not> isWhiteSpace 0x42" "\<not> isWhiteSpace 0x6B"
  by (simp_all add: isWhiteSpace_def)

lemma trim_typed: "trim (newTodo (typed b c)) = buyMilk"
  by (simp add: typed_def buyMilk_def trim_def trimStart_def trimEnd_def ws)

lemma trimmed_buyMilk: "trimmed buyMilk"
  by (simp add: trimmed_def buyMilk_def ws)

lemma toString_1: "toString 1 = [0x31]"
  by (simp add: toString_def digits.simps)


section \<open>The object store\<close>

lemma ids_put: "id_todo ` set (put t xs) = insert (id_todo t) (id_todo ` set xs)"
  by (induction xs) auto

lemma distinct_put: "distinct (map id_todo xs) \<Longrightarrow> distinct (map id_todo (put t xs))"
proof (induction xs)
  case Nil
  then show ?case by simp
next
  case (Cons x xs)
  show ?case
  proof (cases "id_todo x = id_todo t")
    case True
    with Cons.prems show ?thesis by simp
  next
    case False
    have "id_todo x \<notin> id_todo ` set (put t xs)"
      using Cons.prems False by (simp add: ids_put)
    with Cons False show ?thesis by simp
  qed
qed

lemma distinct_delete_key: "distinct (map id_todo xs) \<Longrightarrow> distinct (map id_todo (delete_key k xs))"
  by (simp add: delete_key_def distinct_map_filter)

lemma get_put_same: "get (id_todo t) (put t xs) = Some t"
  by (induction xs) (simp_all add: get_def)

lemma get_put_other: "k \<noteq> id_todo t \<Longrightarrow> get k (put t xs) = get k xs"
  by (induction xs) (auto simp: get_def)

lemma get_delete_key: "get k (delete_key k xs) = None"
  by (simp add: get_def delete_key_def find_None_iff)

lemma set_put: "set (put t xs) \<subseteq> insert t (set xs)"
  by (induction xs) auto

lemma list_all_put: "P t \<Longrightarrow> list_all P xs \<Longrightarrow> list_all P (put t xs)"
  by (induction xs) simp_all

lemma saveAll_eq:
  "saveAll ts w = (if dbOpens w then w\<lparr>objectStore := foldl (\<lambda>st t. put t st) (objectStore w) ts\<rparr> else w)"
  by (induction ts arbitrary: w) (simp_all add: saveTodoDB_def)

lemma distinct_foldl_put:
  "distinct (map id_todo st) \<Longrightarrow> distinct (map id_todo (foldl (\<lambda>st t. put t st) st ts))"
  by (induction ts arbitrary: st) (simp_all add: distinct_put)

lemma set_foldl_put: "set (foldl (\<lambda>st t. put t st) st ts) \<subseteq> set st \<union> set ts"
proof (induction ts arbitrary: st)
  case Nil
  then show ?case by simp
next
  case (Cons t ts)
  have "set (foldl (\<lambda>st t. put t st) (put t st) ts) \<subseteq> set (put t st) \<union> set ts"
    by (rule Cons.IH)
  then show ?case using set_put[of t st] by auto
qed

lemma get_foldl_put:
  "t \<in> set ts \<Longrightarrow>
   \<exists>u\<in>set ts. id_todo u = id_todo t \<and> get (id_todo t) (foldl (\<lambda>st t. put t st) st ts) = Some u"
proof (induction ts rule: rev_induct)
  case Nil
  then show ?case by simp
next
  case (snoc x xs)
  show ?case
  proof (cases "id_todo x = id_todo t")
    case True
    then show ?thesis using get_put_same[of x] by auto
  next
    case False
    then have "t \<in> set xs" using snoc.prems by auto
    then obtain u where "u \<in> set xs" "id_todo u = id_todo t"
      "get (id_todo t) (foldl (\<lambda>st t. put t st) st xs) = Some u"
      using snoc.IH by blast
    then show ?thesis using False by (auto simp: get_put_other)
  qed
qed

section \<open>What each handler leaves alone\<close>


lemma saveAll_frame:
  "isOnline (saveAll ts w) = isOnline w" "syncCalls (saveAll ts w) = syncCalls w"
  "todos (saveAll ts w) = todos w" "passes (saveAll ts w) = passes w"
  "dbOpens (saveAll ts w) = dbOpens w"
  by (simp_all add: saveAll_eq)

lemma addTodo_accepted:
  "trim (newTodo w) \<noteq> [] \<Longrightarrow>
   addTodo now1 now2 w =
     (saveTodoDB \<lparr>id_todo = toString now1, text_todo = trim (newTodo w), completed = False,
                  createdAt = now2, synced = isOnline w\<rparr> w)
     \<lparr>todos := todos w @ [\<lparr>id_todo = toString now1, text_todo = trim (newTodo w), completed = False,
                  createdAt = now2, synced = isOnline w\<rparr>], newTodo := []\<rparr>"
  by (simp add: addTodo_def Let_def)


lemma toggleTodo_todos:
  "todos (toggleTodo k w) =
     map (\<lambda>t. if id_todo t = k then t\<lparr>completed := \<not> completed t, synced := isOnline w\<rparr> else t)
       (todos w)"
  by (simp add: toggleTodo_def Let_def saveTodoDB_def split: option.split)

lemma toggleTodo_isOnline: "isOnline (toggleTodo k w) = isOnline w"
  by (simp add: toggleTodo_def Let_def saveTodoDB_def split: option.split)



lemma deleteTodo_objectStore:
  "objectStore (deleteTodo k w) = (if dbOpens w then delete_key k (objectStore w) else objectStore w)"
  by (simp add: deleteTodo_def deleteTodoDB_def)

lemma deleteTodo_dbOpens: "dbOpens (deleteTodo k w) = dbOpens w"
  by (simp add: deleteTodo_def deleteTodoDB_def)


lemma syncTodos_resume_Cons:
  "passes w = captured # rest \<Longrightarrow>
   syncTodos_resume w =
     (saveAll (map (\<lambda>t. t\<lparr>synced := True\<rparr>) captured) w)
       \<lparr>todos := map (\<lambda>t. t\<lparr>synced := True\<rparr>) captured, isSyncing := False, passes := rest\<rparr>"
  by (simp add: syncTodos_resume_def Let_def)




lemma setIsOnline_objectStore: "objectStore (setIsOnline v w) = objectStore w"
  by (simp add: setIsOnline_def syncTodos_def Let_def)



lemma mount_objectStore: "objectStore (mount onLine st opens) = st"
  by (simp add: mount_def loadTodosFromDB_def setIsOnline_objectStore)
    (simp add: syncTodos_def)

section \<open>Example runs\<close>

lemma typed_reachable:
  "typed online opens = run (mount online [] opens) [TimerFires, Change (0x20 # buyMilk @ [0x20])]"
  by (simp add: typed_def mount_def loadTodosFromDB_def setIsOnline_def syncTodos_def Let_def
      syncTodos_resume_def getAll_def)

lemma milk_synced: "(milk b)\<lparr>synced := c\<rparr> = milk c"
  by (simp add: milk_def)

lemma added_typed:
  "addTodo 1 2 (typed b c) =
     \<lparr>todos = [milk b], newTodo = [], isOnline = b, isSyncing = False,
      objectStore = (if c then [milk b] else []), dbOpens = c, passes = [], syncCalls = 1\<rparr>"
proof -
  have ne: "trim (newTodo (typed b c)) \<noteq> []"
    by (simp add: trim_typed buyMilk_def)
  show ?thesis
    unfolding addTodo_accepted[OF ne] trim_typed toString_1
    by (simp add: typed_def milk_def saveTodoDB_def)
qed

lemma run_example_added:
  "run (typed False True) [AddClick 1 2, DbOpens b] =
     \<lparr>todos = [milk False], newTodo = [], isOnline = False, isSyncing = False,
      objectStore = [milk False], dbOpens = b, passes = [], syncCalls = 1\<rparr>"
  by (simp add: added_typed)

lemma run_example_sync:
  "run (typed False True) [AddClick 1 2, DbOpens b, WindowOnline] =
     \<lparr>todos = [milk False], newTodo = [], isOnline = True, isSyncing = True,
      objectStore = [milk False], dbOpens = b, passes = [[milk False]], syncCalls = 2\<rparr>"
  by (simp add: added_typed setIsOnline_def syncTodos_def)

lemma run_example_same_clock:
  "run (typed True True) [AddClick 1 2, Change (newTodo (typed True True)), AddClick 1 2] =
     \<lparr>todos = [milk True, milk True], newTodo = [], isOnline = True, isSyncing = False,
      objectStore = [milk True], dbOpens = True, passes = [], syncCalls = 1\<rparr>"
proof -
  define w2 where "w2 = (addTodo 1 2 (typed True True))\<lparr>newTodo := newTodo (typed True True)\<rparr>"
  have nt: "newTodo w2 = newTodo (typed True True)"
    by (simp add: w2_def)
  have ne: "trim (newTodo w2) \<noteq> []"
    unfolding nt by (simp add: trim_typed buyMilk_def)
  have "addTodo 1 2 w2 =
     \<lparr>todos = [milk True, milk True], newTodo = [], isOnline = True, isSyncing = False,
      objectStore = [milk True], dbOpens = True, passes = [], syncCalls = 1\<rparr>"
    unfolding addTodo_accepted[OF ne] nt trim_typed toString_1
    by (simp add: w2_def added_typed saveTodoDB_def milk_def)
  then show ?thesis
    by (simp add: w2_def)
qed


section \<open>Adding and toggling\<close>

lemma find_toggled:
  "find (\<lambda>t. id_todo t = k)
     (map (\<lambda>t. if id_todo t = k then t\<lparr>completed := \<not> completed t, synced := b\<rparr> else t) xs) = Some u
   \<Longrightarrow> synced u = b \<and> id_todo u = k"
proof (induction xs)
  case Nil
  then show ?case by simp
next
  case (Cons x xs)
  show ?case
  proof (cases "id_todo x = k")
    case True
    with Cons.prems have "u = x\<lparr>completed := \<not> completed x, synced := b\<rparr>" by simp
    with True show ?thesis by simp
  next
    case False
    with Cons show ?thesis by simp
  qed
qed

lemma find_toggled_Some:
  "k \<in> id_todo ` set xs \<Longrightarrow>
   \<exists>u. find (\<lambda>t. id_todo t = k)
     (map (\<lambda>t. if id_todo t = k then t\<lparr>completed := \<not> completed t, synced := b\<rparr> else t) xs) = Some u"
  by (induction xs) auto

lemma find_id_None: "k \<notin> id_todo ` set xs \<Longrightarrow> find (\<lambda>t. id_todo t = k) xs = None"
  by (auto simp: find_None_iff)

lemma find_Some_set: "find Q xs = Some t \<Longrightarrow> t \<in> set xs"
  by (induction xs) (simp_all split: if_splits)

text \<open>
  Claim C1. Every local mutation of an item sets its \<open>synced\<close> flag to the value that the
  connectivity signal \<open>isOnline\<close> has at that moment. An accepted add appends one item whose
  flag equals \<open>isOnline\<close>, and that item is the record stored under its id when the store
  opens; so an add made offline yields \<open>synced = false\<close> and the same add made online yields
  \<open>synced = true\<close>. A toggle sets the flag of every item with the toggled id to \<open>isOnline\<close>
  and leaves the other items as they were, and the record it stores carries the same flag.
\<close>

theorem local_mutation_sets_synced:
  "(trim (newTodo w) \<noteq> [] \<longrightarrow>
      (\<exists>t. todos (addTodo now1 now2 w) = todos w @ [t] \<and> synced t = isOnline w \<and>
           (dbOpens w \<longrightarrow> get (id_todo t) (objectStore (addTodo now1 now2 w)) = Some t)))
   \<and> list_all2 (\<lambda>t t'. if id_todo t = k then synced t' = isOnline w else t' = t)
        (todos w) (todos (toggleTodo k w))
   \<and> (dbOpens w \<longrightarrow> k \<in> id_todo ` set (todos w) \<longrightarrow>
        (\<exists>t. get k (objectStore (toggleTodo k w)) = Some t \<and> synced t = isOnline w))"
proof (intro conjI impI)
  assume a: "trim (newTodo w) \<noteq> []"
  let ?t = "\<lparr>id_todo = toString now1, text_todo = trim (newTodo w), completed = False,
             createdAt = now2, synced = isOnline w\<rparr>"
  have "todos (addTodo now1 now2 w) = todos w @ [?t]"
    using a by (simp add: addTodo_accepted)
  moreover have "synced ?t = isOnline w" by simp
  moreover have "dbOpens w \<longrightarrow> get (id_todo ?t) (objectStore (addTodo now1 now2 w)) = Some ?t"
    using a get_put_same[of ?t "objectStore w"] by (simp add: addTodo_accepted saveTodoDB_def)
  ultimately show "\<exists>t. todos (addTodo now1 now2 w) = todos w @ [t] \<and> synced t = isOnline w \<and>
           (dbOpens w \<longrightarrow> get (id_todo t) (objectStore (addTodo now1 now2 w)) = Some t)"
    by blast
next
  show "list_all2 (\<lambda>t t'. if id_todo t = k then synced t' = isOnline w else t' = t)
        (todos w) (todos (toggleTodo k w))"
    by (simp add: toggleTodo_todos list_all2_map2 list_all2_same)
next
  assume o: "dbOpens w" and k: "k \<in> id_todo ` set (todos w)"
  obtain u where u: "find (\<lambda>t. id_todo t = k)
     (map (\<lambda>t. if id_todo t = k then t\<lparr>completed := \<not> completed t, synced := isOnline w\<rparr> else t)
        (todos w)) = Some u"
    using find_toggled_Some[OF k] by blast
  then have su: "synced u = isOnline w" and iu: "id_todo u = k"
    using find_toggled by blast+
  have "get k (objectStore (toggleTodo k w)) = Some u"
    using o u get_put_same[of u "objectStore w"] iu
    by (simp add: toggleTodo_def Let_def saveTodoDB_def)
  with su show "\<exists>t. get k (objectStore (toggleTodo k w)) = Some t \<and> synced t = isOnline w"
    by blast
qed

text \<open>
  The theorem at the world \<open>typed\<close>: the add made offline gives \<open>synced = false\<close>, the
  same add made online gives \<open>synced = true\<close>, and a toggle of the item added offline
  stores a record with \<open>synced = false\<close>.
\<close>

theorem local_mutation_sets_synced_witness:
  "trim (newTodo (typed False True)) \<noteq> []
   \<and> (\<exists>t. todos (addTodo 1 2 (typed False True)) = todos (typed False True) @ [t] \<and> synced t = False)
   \<and> trim (newTodo (typed True True)) \<noteq> []
   \<and> (\<exists>t. todos (addTodo 1 2 (typed True True)) = todos (typed True True) @ [t] \<and> synced t = True)
   \<and> dbOpens (addTodo 1 2 (typed False True))
   \<and> [0x31] \<in> id_todo ` set (todos (addTodo 1 2 (typed False True)))
   \<and> (\<exists>t. get [0x31] (objectStore (toggleTodo [0x31] (addTodo 1 2 (typed False True)))) = Some t
          \<and> synced t = False)"
proof -
  have ne: "trim (newTodo (typed b True)) \<noteq> []" for b
    by (simp add: trim_typed buyMilk_def)
  have off: "isOnline (typed False True) = False" and on: "isOnline (typed True True) = True"
    by (simp_all add: typed_def)
  have o: "dbOpens (addTodo 1 2 (typed False True))"
    and k: "[0x31] \<in> id_todo ` set (todos (addTodo 1 2 (typed False True)))"
    and f: "isOnline (addTodo 1 2 (typed False True)) = False"
    by (simp_all add: added_typed milk_def)
  have a: "\<exists>t. todos (addTodo 1 2 (typed False True)) = todos (typed False True) @ [t] \<and> synced t = False"
    using local_mutation_sets_synced[of "typed False True" 1 2 "[]"] ne off by auto
  have b: "\<exists>t. todos (addTodo 1 2 (typed True True)) = todos (typed True True) @ [t] \<and> synced t = True"
    using local_mutation_sets_synced[of "typed True True" 1 2 "[]"] ne on by auto
  have c: "\<exists>t. get [0x31] (objectStore (toggleTodo [0x31] (addTodo 1 2 (typed False True)))) = Some t
          \<and> synced t = False"
    using local_mutation_sets_synced[of "addTodo 1 2 (typed False True)" 1 2 "[0x31]"] o k
    unfolding f by blast
  show ?thesis using ne a b o k c by blast
qed

text \<open>
  Claim C4. Toggling the same id twice in succession gives every item of the list the
  \<open>completed\<close> value it had before; the ids of the list do not change either.
\<close>

theorem toggle_twice_completed:
  "map completed (todos (toggleTodo k (toggleTodo k w))) = map completed (todos w)
   \<and> map id_todo (todos (toggleTodo k (toggleTodo k w))) = map id_todo (todos w)"
  by (simp add: toggleTodo_todos toggleTodo_isOnline o_def)

text \<open>
  The theorem at a world with one item: the first toggle completes it, the second undoes
  that.
\<close>

theorem toggle_twice_completed_witness:
  "map completed (todos (toggleTodo [0x31] (addTodo 1 2 (typed True True)))) = [True]
   \<and> map completed (todos (toggleTodo [0x31] (toggleTodo [0x31] (addTodo 1 2 (typed True True))))) = [False]"
proof -
  define w where "w = addTodo 1 2 (typed True True)"
  have c: "map completed (todos w) = [False]"
    unfolding w_def added_typed by (simp add: milk_def)
  have "map completed (todos (toggleTodo [0x31] w)) = [True]"
    unfolding w_def added_typed by (simp add: toggleTodo_todos milk_def)
  moreover have "map completed (todos (toggleTodo [0x31] (toggleTodo [0x31] w))) = [False]"
    using toggle_twice_completed[of "[0x31]" w] c by simp
  ultimately show ?thesis unfolding w_def by blast
qed

text \<open>
  Claim C10. When no item of the list has the given id, \<open>toggleTodo\<close> returns the world
  unchanged: the list is the same and nothing is written to the store.
\<close>

theorem toggle_unknown_id:
  "k \<notin> id_todo ` set (todos w) \<Longrightarrow> toggleTodo k w = w"
proof -
  assume a: "k \<notin> id_todo ` set (todos w)"
  have m: "map (\<lambda>t. if id_todo t = k then t\<lparr>completed := \<not> completed t, synced := isOnline w\<rparr> else t)
       (todos w) = todos w"
    using a by (intro map_idI) auto
  show ?thesis
    using a by (simp add: toggleTodo_def Let_def m find_id_None)
qed

text \<open>
  The theorem at a world whose only item has the id \<open>1\<close>, toggling the id \<open>2\<close>.
\<close>

theorem toggle_unknown_id_witness:
  "[0x32] \<notin> id_todo ` set (todos (addTodo 1 2 (typed True True)))
   \<and> toggleTodo [0x32] (addTodo 1 2 (typed True True)) = addTodo 1 2 (typed True True)"
proof -
  have n: "[0x32] \<notin> id_todo ` set (todos (addTodo 1 2 (typed True True)))"
    by (simp add: added_typed milk_def)
  from toggle_unknown_id[OF n] n show ?thesis by blast
qed

text \<open>
  Claim C6. When the input text is empty or consists of white space only, \<open>addTodo\<close> returns
  the world unchanged: no item is added, nothing is written to the store, and the input
  field keeps its content. For every other input the add goes through: one item is appended
  to the list, the input field is cleared, and the item is put into the store when the store
  opens.
\<close>

theorem add_rejects_blank_text:
  "(list_all isWhiteSpace (newTodo w) \<longrightarrow> addTodo now1 now2 w = w)
   \<and> (\<not> list_all isWhiteSpace (newTodo w) \<longrightarrow>
        (\<exists>t. todos (addTodo now1 now2 w) = todos w @ [t]
            \<and> newTodo (addTodo now1 now2 w) = []
            \<and> objectStore (addTodo now1 now2 w) =
                (if dbOpens w then put t (objectStore w) else objectStore w)))"
proof (intro conjI impI)
  assume "list_all isWhiteSpace (newTodo w)"
  then have "trim (newTodo w) = []" by (simp only: trim_eq_Nil_iff)
  then show "addTodo now1 now2 w = w" by (simp add: addTodo_def)
next
  assume "\<not> list_all isWhiteSpace (newTodo w)"
  then have ne: "trim (newTodo w) \<noteq> []" by (simp only: trim_eq_Nil_iff not_False_eq_True)
  show "\<exists>t. todos (addTodo now1 now2 w) = todos w @ [t]
            \<and> newTodo (addTodo now1 now2 w) = []
            \<and> objectStore (addTodo now1 now2 w) =
                (if dbOpens w then put t (objectStore w) else objectStore w)"
    unfolding addTodo_accepted[OF ne] by (simp add: saveTodoDB_def)
qed

text \<open>
  The theorem at an input of a space and an ideographic space, at the empty input, and at the
  input
  of \<open>typed\<close>.
\<close>

theorem add_rejects_blank_text_witness:
  "list_all isWhiteSpace (newTodo ((typed False True)\<lparr>newTodo := [0x20, 0x3000]\<rparr>))
   \<and> addTodo 1 2 ((typed False True)\<lparr>newTodo := [0x20, 0x3000]\<rparr>) = (typed False True)\<lparr>newTodo := [0x20, 0x3000]\<rparr>
   \<and> list_all isWhiteSpace (newTodo ((typed False True)\<lparr>newTodo := []\<rparr>))
   \<and> addTodo 1 2 ((typed False True)\<lparr>newTodo := []\<rparr>) = (typed False True)\<lparr>newTodo := []\<rparr>
   \<and> \<not> list_all isWhiteSpace (newTodo (typed False True))
   \<and> (\<exists>t. todos (addTodo 1 2 (typed False True)) = todos (typed False True) @ [t]
          \<and> newTodo (addTodo 1 2 (typed False True)) = []
          \<and> objectStore (addTodo 1 2 (typed False True)) = put t (objectStore (typed False True)))"
proof -
  let ?b = "(typed False True)\<lparr>newTodo := [0x20, 0x3000]\<rparr>"
  let ?e = "(typed False True)\<lparr>newTodo := []\<rparr>"
  have b: "list_all isWhiteSpace (newTodo ?b)" by (simp add: ws)
  have e: "list_all isWhiteSpace (newTodo ?e)" by simp
  have n: "\<not> list_all isWhiteSpace (newTodo (typed False True))"
    by (simp add: typed_def buyMilk_def ws)
  have o: "dbOpens (typed False True)" by (simp add: typed_def)
  have "addTodo 1 2 ?b = ?b" using add_rejects_blank_text[of ?b 1 2] b by blast
  moreover have "addTodo 1 2 ?e = ?e" using add_rejects_blank_text[of ?e 1 2] e by blast
  moreover have "\<exists>t. todos (addTodo 1 2 (typed False True)) = todos (typed False True) @ [t]
          \<and> newTodo (addTodo 1 2 (typed False True)) = []
          \<and> objectStore (addTodo 1 2 (typed False True)) = put t (objectStore (typed False True))"
    using add_rejects_blank_text[of "typed False True" 1 2] n o by auto
  ultimately show ?thesis using b e n by blast
qed

section \<open>Reconciliation\<close>

text \<open>
  Claim C2, as amended. Let the oldest waiting pass have captured the current list, that is,
  nothing has changed the list since \<open>syncTodos\<close> was called. When the pass completes, the
  list is the old list with every \<open>synced\<close> flag set. When the store opens, the record stored
  under the id of each item of the old list is such an item with its flag set. When the store
  does not open, the pass leaves the store as it was.
\<close>

theorem reconciliation_marks_all_synced:
  "passes w = todos w # rest \<Longrightarrow>
   todos (syncTodos_resume w) = map (\<lambda>t. t\<lparr>synced := True\<rparr>) (todos w)
   \<and> list_all synced (todos (syncTodos_resume w))
   \<and> (dbOpens w \<longrightarrow>
        (\<forall>t\<in>set (todos w). \<exists>u\<in>set (todos w). id_todo u = id_todo t \<and>
           get (id_todo t) (objectStore (syncTodos_resume w)) = Some (u\<lparr>synced := True\<rparr>)))
   \<and> (\<not> dbOpens w \<longrightarrow> objectStore (syncTodos_resume w) = objectStore w)"
proof -
  assume p: "passes w = todos w # rest"
  let ?s = "map (\<lambda>t. t\<lparr>synced := True\<rparr>) (todos w)"
  have t: "todos (syncTodos_resume w) = ?s"
    by (simp add: syncTodos_resume_Cons[OF p])
  have a: "list_all synced (todos (syncTodos_resume w))"
    unfolding t by (simp add: list_all_iff)
  have st: "objectStore (syncTodos_resume w) =
      (if dbOpens w then foldl (\<lambda>st t. put t st) (objectStore w) ?s else objectStore w)"
    by (simp add: syncTodos_resume_Cons[OF p] saveAll_eq)
  have s: "\<exists>u\<in>set (todos w). id_todo u = id_todo t \<and>
           get (id_todo t) (objectStore (syncTodos_resume w)) = Some (u\<lparr>synced := True\<rparr>)"
    if o: "dbOpens w" and m: "t \<in> set (todos w)" for t
  proof -
    have "t\<lparr>synced := True\<rparr> \<in> set ?s" using m by auto
    then obtain v where v: "v \<in> set ?s" "id_todo v = id_todo (t\<lparr>synced := True\<rparr>)"
      "get (id_todo (t\<lparr>synced := True\<rparr>)) (foldl (\<lambda>st t. put t st) (objectStore w) ?s) = Some v"
      using get_foldl_put by blast
    from v(1) obtain u where u: "u \<in> set (todos w)" "v = u\<lparr>synced := True\<rparr>" by auto
    have "id_todo u = id_todo t" using v(2) u(2) by simp
    moreover have "get (id_todo t) (objectStore (syncTodos_resume w)) = Some (u\<lparr>synced := True\<rparr>)"
      using v(3) u(2) o by (simp add: st)
    ultimately show ?thesis using u(1) by blast
  qed
  have n: "\<not> dbOpens w \<longrightarrow> objectStore (syncTodos_resume w) = objectStore w"
    by (simp add: st)
  show ?thesis using t a s n by blast
qed

text \<open>
  The theorem at a world reached by adding \<open>Buy milk\<close> offline and going online.
\<close>

theorem reconciliation_marks_all_synced_witness:
  "passes (run (typed False True) [AddClick 1 2, DbOpens True, WindowOnline]) =
     todos (run (typed False True) [AddClick 1 2, DbOpens True, WindowOnline]) # []
   \<and> dbOpens (run (typed False True) [AddClick 1 2, DbOpens True, WindowOnline])
   \<and> todos (syncTodos_resume (run (typed False True) [AddClick 1 2, DbOpens True, WindowOnline])) = [milk True]
   \<and> get [0x31] (objectStore (syncTodos_resume (run (typed False True) [AddClick 1 2, DbOpens True, WindowOnline])))
       = Some (milk True)"
proof -
  let ?w = "run (typed False True) [AddClick 1 2, DbOpens True, WindowOnline]"
  have p: "passes ?w = todos ?w # []" and o: "dbOpens ?w" and t: "todos ?w = [milk False]"
    unfolding run_example_sync by simp_all
  have i: "id_todo (milk False) = [0x31]" by (simp add: milk_def)
  from reconciliation_marks_all_synced[OF p] o
  have "todos (syncTodos_resume ?w) = map (\<lambda>t. t\<lparr>synced := True\<rparr>) (todos ?w)"
    and "\<forall>t\<in>set (todos ?w). \<exists>u\<in>set (todos ?w). id_todo u = id_todo t \<and>
           get (id_todo t) (objectStore (syncTodos_resume ?w)) = Some (u\<lparr>synced := True\<rparr>)"
    by blast+
  then have "todos (syncTodos_resume ?w) = [milk True]"
    and "get [0x31] (objectStore (syncTodos_resume ?w)) = Some (milk True)"
    unfolding t by (simp_all add: milk_synced i)
  with p o show ?thesis by blast
qed

text \<open>
  Without the condition on the store the claim fails. The item is added offline while the
  store opens, then the store stops opening, then the connection comes back. The pass
  completes and marks the item in memory; the \<open>catch\<close> of \<open>saveTodoDB\<close> swallows the
  failure, and the record in the store keeps \<open>synced = false\<close>.
\<close>

theorem reconciliation_store_counterexample:
  "passes (run (typed False True) [AddClick 1 2, DbOpens False, WindowOnline]) =
     [todos (run (typed False True) [AddClick 1 2, DbOpens False, WindowOnline])]
   \<and> todos (run (typed False True) [AddClick 1 2, DbOpens False, WindowOnline]) = [milk False]
   \<and> todos (syncTodos_resume (run (typed False True) [AddClick 1 2, DbOpens False, WindowOnline])) = [milk True]
   \<and> objectStore (syncTodos_resume (run (typed False True) [AddClick 1 2, DbOpens False, WindowOnline]))
       = [milk False]
   \<and> synced (milk False) = False"
  unfolding run_example_sync
  by (simp add: syncTodos_resume_def saveTodoDB_def milk_synced) (simp add: milk_def)

section \<open>Deleting\<close>
























section \<open>The pending banner\<close>

text \<open>
  Claim C5. The pending count \<open>unsyncedCount\<close> is the number of positions of the list whose
  item has \<open>synced = false\<close>. The banner is rendered exactly when the connectivity signal is
  off and the count is positive, and the number it displays is that count.
\<close>

theorem pending_count_and_banner:
  "unsyncedCount w = card {i. i < length (todos w) \<and> \<not> synced (todos w ! i)}
   \<and> (pendingBanner w \<noteq> None) = (\<not> isOnline w \<and> 0 < unsyncedCount w)
   \<and> pendingBanner w \<in> {None, Some (unsyncedCount w)}"
  by (simp add: unsyncedCount_def pendingBanner_def length_filter_conv_card)

text \<open>
  The theorem at three worlds: one item pending while offline (the banner shows 1), the same
  item added online (no banner), and an empty list while offline (no banner).
\<close>

theorem pending_count_and_banner_witness:
  "unsyncedCount (run (typed False True) [AddClick 1 2, DbOpens True]) = 1
   \<and> pendingBanner (run (typed False True) [AddClick 1 2, DbOpens True]) = Some 1
   \<and> pendingBanner (run (typed True True) [AddClick 1 2]) = None
   \<and> pendingBanner (typed False True) = None"
proof -
  let ?w = "run (typed False True) [AddClick 1 2, DbOpens True]"
  have c: "unsyncedCount ?w = 1" and off: "\<not> isOnline ?w"
    unfolding run_example_added by (simp_all add: unsyncedCount_def milk_def)
  have on: "isOnline (run (typed True True) [AddClick 1 2])"
    by (simp add: added_typed)
  have e: "unsyncedCount (typed False True) = 0"
    by (simp add: unsyncedCount_def typed_def)
  have "pendingBanner ?w = Some 1"
    using pending_count_and_banner[of ?w] c off by auto
  moreover have "pendingBanner (run (typed True True) [AddClick 1 2]) = None"
    using pending_count_and_banner[of "run (typed True True) [AddClick 1 2]"] on by blast
  moreover have "pendingBanner (typed False True) = None"
    using pending_count_and_banner[of "typed False True"] e by auto
  ultimately show ?thesis using c by blast
qed

section \<open>Calls of the reconciler\<close>






section \<open>Ids in the store\<close>

lemma uniqueIds_saveTodoDB: "uniqueIds w \<Longrightarrow> uniqueIds (saveTodoDB t w)"
  by (simp add: uniqueIds_def saveTodoDB_def distinct_put)

lemma uniqueIds_saveAll: "uniqueIds w \<Longrightarrow> uniqueIds (saveAll ts w)"
  by (induction ts arbitrary: w) (simp_all add: uniqueIds_saveTodoDB)

lemma uniqueIds_frame: "objectStore w' = objectStore w \<Longrightarrow> uniqueIds w' = uniqueIds w"
  by (simp add: uniqueIds_def)

lemma addTodo_objectStore:
  "objectStore (addTodo now1 now2 w) = objectStore w \<or>
   (\<exists>t. objectStore (addTodo now1 now2 w) = objectStore (saveTodoDB t w))"
  by (auto simp: addTodo_def Let_def)

lemma toggleTodo_objectStore:
  "objectStore (toggleTodo k w) = objectStore w \<or>
   (\<exists>t. objectStore (toggleTodo k w) = objectStore (saveTodoDB t w))"
  by (auto simp: toggleTodo_def Let_def saveTodoDB_def split: option.split)

lemma syncTodos_resume_objectStore:
  "objectStore (syncTodos_resume w) = objectStore w \<or>
   (\<exists>ts. objectStore (syncTodos_resume w) = objectStore (saveAll ts w))"
  by (auto simp: syncTodos_resume_def Let_def split: list.split)

lemma uniqueIds_step: "uniqueIds w \<Longrightarrow> uniqueIds (step e w)"
proof (cases e)
  case (Change s)
  then show "uniqueIds w \<Longrightarrow> ?thesis" by (simp add: uniqueIds_def)
next
  case (AddClick now1 now2)
  assume u: "uniqueIds w"
  show ?thesis
    using addTodo_objectStore[of now1 now2 w] uniqueIds_saveTodoDB[OF u] u
    unfolding AddClick by (auto simp: uniqueIds_def)
next
  case (ToggleClick k)
  assume u: "uniqueIds w"
  show ?thesis
    using toggleTodo_objectStore[of k w] uniqueIds_saveTodoDB[OF u] u
    unfolding ToggleClick by (auto simp: uniqueIds_def)
next
  case (DeleteClick k)
  assume u: "uniqueIds w"
  then show ?thesis
    unfolding DeleteClick
    by (simp add: uniqueIds_def deleteTodo_objectStore distinct_delete_key)
next
  case WindowOnline
  then show "uniqueIds w \<Longrightarrow> ?thesis" by (simp add: uniqueIds_def setIsOnline_objectStore)
next
  case WindowOffline
  then show "uniqueIds w \<Longrightarrow> ?thesis" by (simp add: uniqueIds_def setIsOnline_objectStore)
next
  case TimerFires
  assume u: "uniqueIds w"
  show ?thesis
    using syncTodos_resume_objectStore[of w] uniqueIds_saveAll[OF u] u
    unfolding TimerFires by (auto simp: uniqueIds_def)
next
  case (DbOpens b)
  then show "uniqueIds w \<Longrightarrow> ?thesis" by (simp add: uniqueIds_def)
qed

lemma uniqueIds_run: "uniqueIds w \<Longrightarrow> uniqueIds (run w es)"
  by (induction es arbitrary: w) (simp_all add: uniqueIds_step)

text \<open>
  Claim C8. No two records of the store share an id: when this holds of a world, it holds
  after every run of events from it, and so it holds after every run from a mount over a
  store whose ids are distinct.
\<close>

theorem store_ids_unique:
  "(uniqueIds w \<longrightarrow> uniqueIds (run w es))
   \<and> (distinct (map id_todo st) \<longrightarrow> uniqueIds (run (mount onLine st opens) es))"
proof (intro conjI impI)
  assume "uniqueIds w"
  then show "uniqueIds (run w es)" by (rule uniqueIds_run)
next
  assume "distinct (map id_todo st)"
  then have "uniqueIds (mount onLine st opens)"
    by (simp add: uniqueIds_def mount_objectStore)
  then show "uniqueIds (run (mount onLine st opens) es)" by (rule uniqueIds_run)
qed

text \<open>
  The theorem at a run with two adds that read the same clock value: both items get the id
  \<open>1\<close>, and the store keeps one record under that id.
\<close>

theorem store_ids_unique_witness:
  "uniqueIds (typed True True)
   \<and> uniqueIds (run (typed True True) [AddClick 1 2, Change (newTodo (typed True True)), AddClick 1 2])
   \<and> map id_todo (objectStore
        (run (typed True True) [AddClick 1 2, Change (newTodo (typed True True)), AddClick 1 2])) = [[0x31]]
   \<and> distinct (map id_todo [milk True])
   \<and> uniqueIds (run (mount True [milk True] True) [TimerFires, ToggleClick [0x31]])"
proof -
  have u: "uniqueIds (typed True True)" by (simp add: uniqueIds_def typed_def)
  have d: "distinct (map id_todo [milk True])" by simp
  have "map id_todo (objectStore
        (run (typed True True) [AddClick 1 2, Change (newTodo (typed True True)), AddClick 1 2])) = [[0x31]]"
    unfolding run_example_same_clock by (simp add: milk_def)
  moreover have "uniqueIds (run (typed True True) [AddClick 1 2, Change (newTodo (typed True True)), AddClick 1 2])"
    using store_ids_unique[of "typed True True"
        "[AddClick 1 2, Change (newTodo (typed True True)), AddClick 1 2]" "[]" True True] u
    by blast
  moreover have "uniqueIds (run (mount True [milk True] True) [TimerFires, ToggleClick [0x31]])"
    using store_ids_unique[of "typed True True" "[TimerFires, ToggleClick [0x31]]" "[milk True]" True True] d
    by blast
  ultimately show ?thesis using u d by blast
qed

section \<open>Texts\<close>

lemma textsTrimmed_saveTodoDB:
  "textsTrimmed w \<Longrightarrow> trimmed (text_todo t) \<Longrightarrow> textsTrimmed (saveTodoDB t w)"
  by (simp add: textsTrimmed_def saveTodoDB_def list_all_put)

lemma textsTrimmed_saveAll:
  "textsTrimmed w \<Longrightarrow> list_all (\<lambda>t. trimmed (text_todo t)) ts \<Longrightarrow> textsTrimmed (saveAll ts w)"
  by (induction ts arbitrary: w) (simp_all add: textsTrimmed_saveTodoDB)

lemma textsTrimmed_todos_update:
  "textsTrimmed w \<Longrightarrow> list_all (\<lambda>t. trimmed (text_todo t)) ts \<Longrightarrow> textsTrimmed (w\<lparr>todos := ts\<rparr>)"
  by (simp add: textsTrimmed_def)

lemma textsTrimmed_addTodo: "textsTrimmed w \<Longrightarrow> textsTrimmed (addTodo now1 now2 w)"
proof (cases "trim (newTodo w) = []")
  case True
  then show "textsTrimmed w \<Longrightarrow> ?thesis" by (simp add: addTodo_def)
next
  case False
  assume i: "textsTrimmed w"
  let ?t = "\<lparr>id_todo = toString now1, text_todo = trim (newTodo w), completed = False,
             createdAt = now2, synced = isOnline w\<rparr>"
  have t: "trimmed (text_todo ?t)" using False by (simp add: trimmed_trim)
  have s: "textsTrimmed (saveTodoDB ?t w)"
    using i t by (rule textsTrimmed_saveTodoDB)
  have "list_all (\<lambda>t. trimmed (text_todo t)) (todos w @ [?t])"
    using i t by (simp add: textsTrimmed_def)
  then have "textsTrimmed ((saveTodoDB ?t w)\<lparr>todos := todos w @ [?t]\<rparr>)"
    using s by (simp add: textsTrimmed_todos_update)
  then have "textsTrimmed ((saveTodoDB ?t w)\<lparr>todos := todos w @ [?t], newTodo := []\<rparr>)"
    by (simp add: textsTrimmed_def)
  then show ?thesis
    unfolding addTodo_accepted[OF False] .
qed

lemma list_all_toggled:
  "list_all (\<lambda>t. trimmed (text_todo t)) xs \<Longrightarrow>
   list_all (\<lambda>t. trimmed (text_todo t))
     (map (\<lambda>t. if id_todo t = k then t\<lparr>completed := \<not> completed t, synced := b\<rparr> else t) xs)"
  by (induction xs) simp_all

lemma textsTrimmed_toggleTodo: "textsTrimmed w \<Longrightarrow> textsTrimmed (toggleTodo k w)"
proof -
  assume i: "textsTrimmed w"
  let ?u = "map (\<lambda>t. if id_todo t = k then t\<lparr>completed := \<not> completed t, synced := isOnline w\<rparr>
                      else t) (todos w)"
  have "list_all (\<lambda>t. trimmed (text_todo t)) (todos w)"
    using i by (simp add: textsTrimmed_def)
  then have u: "list_all (\<lambda>t. trimmed (text_todo t)) ?u"
    by (rule list_all_toggled)
  then have w1: "textsTrimmed (w\<lparr>todos := ?u\<rparr>)"
    using i by (simp add: textsTrimmed_todos_update)
  show ?thesis
  proof (cases "find (\<lambda>t. id_todo t = k) ?u")
    case None
    then show ?thesis using w1 by (simp add: toggleTodo_def Let_def)
  next
    case (Some t)
    then have "t \<in> set ?u" by (rule find_Some_set)
    then have "trimmed (text_todo t)" using u by (simp only: list_all_iff)
    then have "textsTrimmed (saveTodoDB t (w\<lparr>todos := ?u\<rparr>))"
      using w1 by (simp add: textsTrimmed_saveTodoDB)
    then show ?thesis using Some by (simp add: toggleTodo_def Let_def)
  qed
qed

lemma textsTrimmed_deleteTodo: "textsTrimmed w \<Longrightarrow> textsTrimmed (deleteTodo k w)"
  by (simp add: textsTrimmed_def deleteTodo_def deleteTodoDB_def delete_key_def list_all_iff)

lemma textsTrimmed_setIsOnline: "textsTrimmed w \<Longrightarrow> textsTrimmed (setIsOnline v w)"
  by (simp add: textsTrimmed_def setIsOnline_def syncTodos_def Let_def)

lemma textsTrimmed_syncTodos_resume: "textsTrimmed w \<Longrightarrow> textsTrimmed (syncTodos_resume w)"
proof (cases "passes w")
  case Nil
  then show "textsTrimmed w \<Longrightarrow> ?thesis" by (simp add: syncTodos_resume_def)
next
  case (Cons captured rest)
  assume i: "textsTrimmed w"
  let ?s = "map (\<lambda>t. t\<lparr>synced := True\<rparr>) captured"
  have c: "list_all (\<lambda>t. trimmed (text_todo t)) ?s"
    using i Cons by (simp add: textsTrimmed_def list_all_iff)
  have "textsTrimmed (saveAll ?s w)"
    using i c by (rule textsTrimmed_saveAll)
  then have "textsTrimmed ((saveAll ?s w)\<lparr>todos := ?s\<rparr>)"
    using c by (simp add: textsTrimmed_todos_update)
  then have "textsTrimmed ((saveAll ?s w)\<lparr>todos := ?s, isSyncing := False, passes := rest\<rparr>)"
    using i Cons by (simp add: textsTrimmed_def saveAll_frame)
  then show ?thesis
    unfolding syncTodos_resume_Cons[OF Cons] .
qed

lemma textsTrimmed_step: "textsTrimmed w \<Longrightarrow> textsTrimmed (step e w)"
proof (cases e)
  case (Change s)
  then show "textsTrimmed w \<Longrightarrow> ?thesis" by (simp add: textsTrimmed_def)
next
  case (AddClick now1 now2)
  then show "textsTrimmed w \<Longrightarrow> ?thesis" by (simp add: textsTrimmed_addTodo)
next
  case (ToggleClick k)
  then show "textsTrimmed w \<Longrightarrow> ?thesis" by (simp add: textsTrimmed_toggleTodo)
next
  case (DeleteClick k)
  then show "textsTrimmed w \<Longrightarrow> ?thesis" by (simp add: textsTrimmed_deleteTodo)
next
  case WindowOnline
  then show "textsTrimmed w \<Longrightarrow> ?thesis" by (simp add: textsTrimmed_setIsOnline)
next
  case WindowOffline
  then show "textsTrimmed w \<Longrightarrow> ?thesis" by (simp add: textsTrimmed_setIsOnline)
next
  case TimerFires
  then show "textsTrimmed w \<Longrightarrow> ?thesis" by (simp add: textsTrimmed_syncTodos_resume)
next
  case (DbOpens b)
  then show "textsTrimmed w \<Longrightarrow> ?thesis" by (simp add: textsTrimmed_def)
qed

lemma textsTrimmed_run: "textsTrimmed w \<Longrightarrow> textsTrimmed (run w es)"
  by (induction es arbitrary: w) (simp_all add: textsTrimmed_step)

lemma textsTrimmed_mount:
  "list_all (\<lambda>t. trimmed (text_todo t)) st \<Longrightarrow> textsTrimmed (mount onLine st opens)"
  by (simp add: textsTrimmed_def mount_def loadTodosFromDB_def setIsOnline_def syncTodos_def
      Let_def getAll_def)

text \<open>
  Claim C9. The text of the item that an accepted add appends is the input without its
  leading and trailing white space: the input is some white space, then the text, then some
  white space, and the text is trimmed. Consequently, when every text held in a world is
  trimmed, so is every text held after any run of events; this covers every run from a mount
  over a store whose texts are trimmed.
\<close>

theorem added_text_is_trimmed:
  "(\<not> list_all isWhiteSpace (newTodo w) \<longrightarrow>
      (\<exists>t before after.
          todos (addTodo now1 now2 w) = todos w @ [t]
          \<and> newTodo w = before @ text_todo t @ after
          \<and> list_all isWhiteSpace before \<and> list_all isWhiteSpace after
          \<and> trimmed (text_todo t)))
   \<and> (textsTrimmed w \<longrightarrow> textsTrimmed (run w es))
   \<and> (list_all (\<lambda>t. trimmed (text_todo t)) st \<longrightarrow> textsTrimmed (run (mount onLine st opens) es))"
proof (intro conjI impI)
  assume "\<not> list_all isWhiteSpace (newTodo w)"
  then have ne: "trim (newTodo w) \<noteq> []"
    by (simp only: trim_eq_Nil_iff not_False_eq_True)
  let ?t = "\<lparr>id_todo = toString now1, text_todo = trim (newTodo w), completed = False,
             createdAt = now2, synced = isOnline w\<rparr>"
  let ?b = "takeWhile isWhiteSpace (newTodo w)"
  let ?a = "rev (takeWhile isWhiteSpace (rev (trimStart (newTodo w))))"
  have 1: "todos (addTodo now1 now2 w) = todos w @ [?t]"
    by (simp add: addTodo_accepted[OF ne])
  have 2: "newTodo w = ?b @ text_todo ?t @ ?a"
    using trim_decomp[of "newTodo w"] by simp
  have 3: "list_all isWhiteSpace ?b" by (rule list_all_takeWhile)
  have 4: "list_all isWhiteSpace ?a"
    using list_all_takeWhile[of isWhiteSpace "rev (trimStart (newTodo w))"]
    by (simp add: list_all_iff)
  have 5: "trimmed (text_todo ?t)" using ne by (simp add: trimmed_trim)
  from 1 2 3 4 5
  show "\<exists>t before after.
          todos (addTodo now1 now2 w) = todos w @ [t]
          \<and> newTodo w = before @ text_todo t @ after
          \<and> list_all isWhiteSpace before \<and> list_all isWhiteSpace after
          \<and> trimmed (text_todo t)"
    by blast
next
  assume "textsTrimmed w"
  then show "textsTrimmed (run w es)" by (rule textsTrimmed_run)
next
  assume "list_all (\<lambda>t. trimmed (text_todo t)) st"
  then have "textsTrimmed (mount onLine st opens)" by (rule textsTrimmed_mount)
  then show "textsTrimmed (run (mount onLine st opens) es)" by (rule textsTrimmed_run)
qed

text \<open>
  The theorem at the input of \<open>typed\<close>, a space before \<open>Buy milk\<close> and a space after
  it, and at two runs.
\<close>

theorem added_text_is_trimmed_witness:
  "\<not> list_all isWhiteSpace (newTodo (typed False True))
   \<and> text_todo (last (todos (addTodo 1 2 (typed False True)))) = buyMilk
   \<and> newTodo (typed False True) = [0x20] @ buyMilk @ [0x20]
   \<and> textsTrimmed (typed False True)
   \<and> textsTrimmed (run (typed False True) [AddClick 1 2, WindowOnline, ToggleClick [0x31], TimerFires])
   \<and> list_all (\<lambda>t. trimmed (text_todo t)) [milk True]
   \<and> textsTrimmed (run (mount True [milk True] True) [TimerFires, DeleteClick [0x31]])"
proof -
  have n: "\<not> list_all isWhiteSpace (newTodo (typed False True))"
    by (simp add: typed_def buyMilk_def ws)
  have a: "text_todo (last (todos (addTodo 1 2 (typed False True)))) = buyMilk"
    by (simp add: added_typed milk_def)
  have b: "newTodo (typed False True) = [0x20] @ buyMilk @ [0x20]"
    by (simp add: typed_def)
  have i: "textsTrimmed (typed False True)"
    by (simp add: textsTrimmed_def typed_def)
  have m: "list_all (\<lambda>t. trimmed (text_todo t)) [milk True]"
    by (simp add: milk_def trimmed_buyMilk)
  have "textsTrimmed (run (typed False True) [AddClick 1 2, WindowOnline, ToggleClick [0x31], TimerFires])"
    using added_text_is_trimmed[of "typed False True" 1 2
        "[AddClick 1 2, WindowOnline, ToggleClick [0x31], TimerFires]" "[]" True True] i
    by blast
  moreover have "textsTrimmed (run (mount True [milk True] True) [TimerFires, DeleteClick [0x31]])"
    using added_text_is_trimmed[of "typed False True" 1 2
        "[TimerFires, DeleteClick [0x31]]" "[milk True]" True True] m
    by blast
  ultimately show ?thesis using n a b i m by blast
qed

section \<open>The pass started at the mount\<close>

text \<open>
  A further property. The pass that the mount starts has captured the empty list of the
  first render. The list loaded from the store arrives while that pass waits; when the delay
  expires, the pass installs its empty list and saves nothing. So one second after the
  mount the in-memory list is empty, whatever the store holds.
\<close>

theorem mount_pass_empties_list:
  "todos (mount onLine st True) = st
   \<and> todos (run (mount onLine st opens) [TimerFires]) = []
   \<and> objectStore (run (mount onLine st opens) [TimerFires]) = st"
  by (simp add: mount_def loadTodosFromDB_def setIsOnline_def syncTodos_def Let_def
      syncTodos_resume_def getAll_def)

end
